theory Spec2Isabelle
  imports Main "HOL-Library.Mapping" "HOL-Library.AList_Mapping" "HOL-Library.Signed_Division"
    "HOL-Library.Word"
begin

section \<open>The load generator of package wfe\<close>

text \<open>
  A shallow embedding of the load-generation engine (package \<open>wfe\<close>): the weighted choice of
  the next call, the nonce pool, snapshot and restore of registrations, the run plan, the
  warmup and \<open>Run\<close>. Locks are left out: every function is modelled as it runs when no other
  goroutine interleaves with it, and the two places where goroutines do interleave (the warmup
  workers, and the run plan beside the sending loop) are modelled by an explicit schedule.

  Go's \<open>int\<close> and \<open>int64\<close> are modelled by \<open>int\<close>: the modelled functions add weights (1 to 4
  in \<open>sendCall\<close>) and lengths of slices, add or subtract one, and divide a constant by the
  throughput, so no value leaves the range of 64 bits.
\<close>

subsection \<open>Go values: panics, errors\<close>

datatype panic =
    NilDereference       \<comment> \<open>call of a nil func value, method on a nil pointer\<close>
  | DivideByZero         \<comment> \<open>integer divide by zero\<close>
  | IndexOutOfRange      \<comment> \<open>slice index out of range\<close>
  | InvalidArgument      \<comment> \<open>\<open>mrand.Intn\<close> with \<open>n <= 0\<close>\<close>
  | NegativeCounter      \<comment> \<open>a wait group counter below zero\<close>

text \<open>What a call does: it returns a value, or it panics (nothing of this package recovers).\<close>

datatype 'a go = Return 'a | Panic panic

datatype error = Error string

subsection \<open>Call sender: \<open>probabilityProfile\<close> and \<open>weightedCall\<close>\<close>

record 'a probabilityProfile =
  prob :: int
  action :: 'a

text \<open>
  One pass of the outer loop of \<open>weightedCall\<close>: the inner loop stores the action under the
  keys \<open>n, ..., n + prob - 1\<close> of the map \<open>choices\<close> (no key when \<open>prob \<le> 0\<close>), then
  \<open>n += pp.prob\<close>.
\<close>

definition weightedCall_step ::
  "'a probabilityProfile \<Rightarrow> (int, 'a) mapping \<times> int \<Rightarrow> (int, 'a) mapping \<times> int" where
  "weightedCall_step pp cn =
     (case cn of (choices, n) \<Rightarrow>
        (fold (\<lambda>i c. Mapping.update (i + n) (action pp) c) [0..prob pp - 1] choices,
         n + prob pp))"

text \<open>
  \<open>mrand.Intn(n)\<close> panics when \<open>n \<le> 0\<close> and otherwise yields a number \<open>k\<close> with
  \<open>0 \<le> k < n\<close>. The number drawn is an argument of the model: \<open>k\<close> is what the generator
  yields at this call.
\<close>

definition mrand_Intn :: "int \<Rightarrow> int \<Rightarrow> int go" where
  "mrand_Intn k n = (if n \<le> 0 then Panic InvalidArgument else Return k)"

text \<open>
  \<open>weightedCall setup\<close>, with the number \<open>k\<close> its call of \<open>mrand.Intn(n)\<close> yields. The result
  \<open>None\<close> is the nil func value: the explicit return for an empty map, and what a map read
  gives for a key the map does not hold.
\<close>

definition weightedCall :: "'a probabilityProfile list \<Rightarrow> int \<Rightarrow> 'a option go" where
  "weightedCall pps k =
     (case fold weightedCall_step pps (Mapping.empty, 0) of (choices, n) \<Rightarrow>
        if Mapping.is_empty choices then Return None
        else (case mrand_Intn k n of
                Panic p \<Rightarrow> Panic p
              | Return i \<Rightarrow> Return (Mapping.lookup choices i)))"

text \<open>The sum of the weights of the first \<open>j\<close> profiles: where the interval of profile \<open>j\<close> starts.\<close>

definition cumulative :: "'a probabilityProfile list \<Rightarrow> nat \<Rightarrow> int" where
  "cumulative pps j = sum_list (map prob (take j pps))"

text \<open>
  The draw the specification describes (a cumulative-weight search): walk the list and take
  the first profile whose interval holds the index.
\<close>

fun cumulative_pick :: "'a probabilityProfile list \<Rightarrow> int \<Rightarrow> 'a option" where
  "cumulative_pick [] k = None"
| "cumulative_pick (pp # ps) k =
     (if 0 \<le> k \<and> k < prob pp then Some (action pp) else cumulative_pick ps (k - prob pp))"

text \<open>The four calls \<open>sendCall\<close> chooses from (methods of \<open>State\<close> taking a registration).\<close>

datatype call = NewRegistration | NewAuthorization | NewCertificate | RevokeCertificate

subsection \<open>The state\<close>

type_synonym byte = "8 word"

text \<open>An instant, as \<open>time.Now()\<close> reads it.\<close>

type_synonym time = nat

record RatePeriod =
  For :: int    \<comment> \<open>\<open>time.Duration\<close>: nanoseconds\<close>
  Rate :: int   \<comment> \<open>\<open>int64\<close>\<close>

text \<open>
  A registration. The lock \<open>iMu\<close> is left out. \<open>'key\<close> stands for \<open>*rsa.PrivateKey\<close> (the
  numbers of the key, not the cache \<open>Precompute\<close> fills) and \<open>'signer\<close> for \<open>jose.Signer\<close>.
\<close>

record ('key, 'signer) registration =
  key :: 'key
  signer :: 'signer
  auths :: "string list"
  certs :: "string list"

text \<open>
  The HTTP client, as far as \<open>Nonce\<close> uses it: \<open>answers c i req\<close> is what the \<open>i\<close>-th request
  of the client yields when it is \<open>req\<close> (method and URL), a transport error or a response;
  \<open>requests\<close> lists the requests performed so far.
\<close>

record http_Response =
  header :: "string \<rightharpoonup> string"

record http_Client =
  answers :: "nat \<Rightarrow> string \<times> string \<Rightarrow> error + http_Response"
  requests :: "(string \<times> string) list"

definition client_Head :: "string \<Rightarrow> http_Client \<Rightarrow> (error + http_Response) \<times> http_Client" where
  "client_Head url c =
     (answers c (length (requests c)) (''HEAD'', url),
      c\<lparr>requests := requests c @ [(''HEAD'', url)]\<rparr>)"

text \<open>\<open>Header.Get\<close>: the empty string when the header is absent.\<close>

definition header_Get :: "http_Response \<Rightarrow> string \<Rightarrow> string" where
  "header_Get resp name = (case header resp name of None \<Rightarrow> [] | Some v \<Rightarrow> v)"

text \<open>
  Modelled from the spec: \<open>latency.Map\<close> (package \<open>latency\<close> is not part of the examined
  source). The recorder holds the start and stop timestamps of the run and, for each call,
  its name, its two instants and its outcome.
\<close>

record latency_Map =
  Started :: time
  Stopped :: time
  points :: "(string \<times> time \<times> time \<times> string) list"

definition latency_Add :: "string \<Rightarrow> time \<Rightarrow> time \<Rightarrow> string \<Rightarrow> latency_Map \<Rightarrow> latency_Map" where
  "latency_Add name sent finished outcome m = m\<lparr>points := points m @ [(name, sent, finished, outcome)]\<rparr>"

text \<open>An operating-system process (\<open>*os.Process\<close>), by its process id.\<close>

type_synonym process = nat

text \<open>
  \<open>State\<close>, without the locks \<open>rMu\<close> and \<open>nMu\<close>. \<open>wg\<close> is the counter of the wait group;
  \<open>challSrvProc\<close> is \<open>None\<close> for the nil pointer.
\<close>

record ('key, 'signer) State =
  regs :: "('key, 'signer) registration list"
  maxRegs :: int
  client :: http_Client
  apiBase :: string
  termsURL :: string
  warmupRegs :: int
  warmupWorkers :: int
  realIP :: string
  noncePool :: "string list"
  throughput :: int
  challRPCAddr :: string
  certKey :: 'key
  domainBase :: string
  callLatency :: latency_Map
  runtime :: int
  challSrvProc :: "process option"
  wg :: int
  runPlan :: "RatePeriod list"

text \<open>
  \<open>New\<close>, with the result of \<open>rsa.GenerateKey\<close> and the HTTP client it builds as arguments.
  \<open>latency.New\<close> gives a recorder without points. The fields \<open>New\<close> does not set have their
  zero values: no registration, no nonce, no process.
\<close>

definition New ::
  "error + 'key \<Rightarrow> http_Client \<Rightarrow> string \<Rightarrow> string \<Rightarrow> int \<Rightarrow> string \<Rightarrow> int \<Rightarrow> string \<Rightarrow> string
     \<Rightarrow> RatePeriod list \<Rightarrow> int \<Rightarrow> int \<Rightarrow> int \<Rightarrow> error + ('key, 'signer) State" where
  "New generated cl rpcAddr base rate domain rt terms ip plan maxR warmupR warmupW =
     (case generated of
        Inl err \<Rightarrow> Inl err
      | Inr k \<Rightarrow>
          Inr \<lparr>regs = [], maxRegs = maxR, client = cl, apiBase = base, termsURL = terms,
               warmupRegs = warmupR, warmupWorkers = warmupW, realIP = ip, noncePool = [],
               throughput = rate, challRPCAddr = rpcAddr, certKey = k, domainBase = domain,
               callLatency = \<lparr>Started = 0, Stopped = 0, points = []\<rparr>, runtime = rt,
               challSrvProc = None, wg = 0, runPlan = plan\<rparr>)"

subsection \<open>Snapshot and restore\<close>

record rawRegistration =
  Certs :: "string list"
  RawKey :: "byte list"

record snapshot =
  Registrations :: "rawRegistration list"

text \<open>
  The library functions \<open>Snapshot\<close> and \<open>Restore\<close> call (\<open>crypto/x509\<close>, \<open>go-jose\<close>,
  \<open>encoding/json\<close>) are arguments of the model. \<open>'doc\<close> stands for the content of a file,
  the bytes \<open>json.Marshal\<close> writes and \<open>json.Unmarshal\<close> reads.
\<close>

record ('key, 'signer, 'doc) library =
  x509_MarshalPKCS1PrivateKey :: "'key \<Rightarrow> byte list"
  x509_ParsePKCS1PrivateKey :: "byte list \<Rightarrow> error + 'key"
  jose_NewSigner :: "'key \<Rightarrow> error + 'signer"
  json_Marshal :: "snapshot \<Rightarrow> error + 'doc"
  json_Unmarshal :: "'doc \<Rightarrow> error + snapshot"

text \<open>
  The file system: the files by name, and the names that cannot be written. \<open>ioutil.ReadFile\<close>
  fails on a name that has no file, \<open>ioutil.WriteFile\<close> on a name that cannot be written.
\<close>

record 'doc filesystem =
  files :: "string \<rightharpoonup> 'doc"
  unwritable :: "string set"

definition ioutil_ReadFile :: "string \<Rightarrow> 'doc filesystem \<Rightarrow> error + 'doc" where
  "ioutil_ReadFile filename fs =
     (case files fs filename of
        None \<Rightarrow> Inl (Error ''open: no such file or directory'')
      | Some content \<Rightarrow> Inr content)"

definition ioutil_WriteFile :: "string \<Rightarrow> 'doc \<Rightarrow> 'doc filesystem \<Rightarrow> error + 'doc filesystem" where
  "ioutil_WriteFile filename content fs =
     (if filename \<in> unwritable fs then Inl (Error ''open: permission denied'')
      else Inr (fs\<lparr>files := (files fs)(filename \<mapsto> content)\<rparr>))"

text \<open>The body of the loop of \<open>Snapshot\<close>: one record appended for one registration.\<close>

definition Snapshot_append ::
  "('key, 'signer, 'doc) library \<Rightarrow> ('key, 'signer) registration \<Rightarrow> snapshot \<Rightarrow> snapshot" where
  "Snapshot_append lib r snap =
     snap\<lparr>Registrations := Registrations snap @
       [\<lparr>Certs = certs r, RawKey = x509_MarshalPKCS1PrivateKey lib (key r)\<rparr>]\<rparr>"

text \<open>\<open>Snapshot\<close>: the error it returns, or the file system after the write.\<close>

definition Snapshot ::
  "('key, 'signer, 'doc) library \<Rightarrow> string \<Rightarrow> ('key, 'signer) State \<Rightarrow> 'doc filesystem
     \<Rightarrow> error + 'doc filesystem" where
  "Snapshot lib filename s fs =
     (let snap = fold (Snapshot_append lib) (regs s) \<lparr>Registrations = []\<rparr> in
      case json_Marshal lib snap of
        Inl err \<Rightarrow> Inl err
      | Inr cont \<Rightarrow> ioutil_WriteFile filename cont fs)"

text \<open>
  The body of the loop of \<open>Restore\<close>. A key that does not parse and a signer that cannot be
  built \<open>continue\<close> with the next record. \<open>key.Precompute()\<close> leaves the numbers of the key as
  they are, and \<open>signer.SetNonceSource(s)\<close> binds the signer to this state; the restored
  registration has no authorizations (the zero value of the field).
\<close>

definition Restore_record ::
  "('key, 'signer, 'doc) library \<Rightarrow> rawRegistration \<Rightarrow> ('key, 'signer) State
     \<Rightarrow> ('key, 'signer) State" where
  "Restore_record lib r s =
     (case x509_ParsePKCS1PrivateKey lib (RawKey r) of
        Inl err \<Rightarrow> s
      | Inr k \<Rightarrow>
          (case jose_NewSigner lib k of
             Inl err \<Rightarrow> s
           | Inr sg \<Rightarrow> s\<lparr>regs := regs s @ [\<lparr>key = k, signer = sg, auths = [], certs = Certs r\<rparr>]\<rparr>))"

text \<open>\<open>Restore\<close>: the error it returns (the state is then as it was), or the state after it.\<close>

definition Restore ::
  "('key, 'signer, 'doc) library \<Rightarrow> string \<Rightarrow> 'doc filesystem \<Rightarrow> ('key, 'signer) State
     \<Rightarrow> error + ('key, 'signer) State" where
  "Restore lib filename fs s =
     (case ioutil_ReadFile filename fs of
        Inl err \<Rightarrow> Inl err
      | Inr content \<Rightarrow>
          (case json_Unmarshal lib content of
             Inl err \<Rightarrow> Inl err
           | Inr snap \<Rightarrow> Inr (fold (Restore_record lib) (Registrations snap) s)))"

subsection \<open>The run plan\<close>

text \<open>What a function does besides changing the state, in the order it does it.\<close>

datatype event =
    Stored int                 \<comment> \<open>\<open>atomic.StoreInt64(&s.throughput, _)\<close>\<close>
  | Printed string             \<comment> \<open>a line printed, by its format string\<close>
  | Slept int                  \<comment> \<open>\<open>time.Sleep\<close> of so many nanoseconds\<close>
  | CmdStarted "string list"   \<comment> \<open>the challenge server started, with its command line\<close>
  | PlanLaunched               \<comment> \<open>\<open>go s.executePlan()\<close>\<close>
  | Spawned                    \<comment> \<open>\<open>go s.sendCall()\<close>\<close>
  | StopSent                   \<comment> \<open>\<open>stop <- true\<close>\<close>
  | Waited                     \<comment> \<open>\<open>s.wg.Wait()\<close> returned\<close>
  | Killed process             \<comment> \<open>\<open>Kill\<close> called on the process\<close>

text \<open>One pass of the loop of \<open>executePlan\<close>: store the rate, print, sleep.\<close>

definition executePlan_segment ::
  "RatePeriod \<Rightarrow> ('key, 'signer) State \<times> event list \<Rightarrow> ('key, 'signer) State \<times> event list" where
  "executePlan_segment p st =
     (case st of (s, tr) \<Rightarrow>
        (s\<lparr>throughput := Rate p\<rparr>,
         tr @ [Stored (Rate p), Printed ''Set base action rate to %d/s for %s'', Slept (For p)]))"

definition executePlan :: "('key, 'signer) State \<Rightarrow> ('key, 'signer) State \<times> event list" where
  "executePlan s = fold executePlan_segment (runPlan s) (s, [])"

subsection \<open>The nonce pool\<close>

text \<open>
  \<open>Nonce\<close>, with the two instants \<open>time.Now()\<close> reads around the request. The deferred call
  records the request with the outcome the function left in \<open>state\<close>.
\<close>

definition Nonce ::
  "time \<Rightarrow> time \<Rightarrow> ('key, 'signer) State \<Rightarrow> (error + string) \<times> ('key, 'signer) State" where
  "Nonce started finished s =
     (case noncePool s of
        [] \<Rightarrow>
          (case client_Head (apiBase s @ ''/directory'') (client s) of (r, c) \<Rightarrow>
             (case r of
                Inl err \<Rightarrow>
                  (Inl err,
                   s\<lparr>client := c,
                     callLatency := latency_Add ''HEAD /directory'' started finished ''error'' (callLatency s)\<rparr>)
              | Inr resp \<Rightarrow>
                  (let nonce = header_Get resp ''Replay-Nonce'' in
                   if nonce \<noteq> [] then
                     (Inr nonce,
                      s\<lparr>client := c,
                        callLatency := latency_Add ''HEAD /directory'' started finished ''good'' (callLatency s)\<rparr>)
                   else
                     (Inl (Error ''Nonce header not supplied!''),
                      s\<lparr>client := c,
                        callLatency := latency_Add ''HEAD /directory'' started finished ''error'' (callLatency s)\<rparr>))))
      | nonce # rest \<Rightarrow> (Inr nonce, s\<lparr>noncePool := rest\<rparr>))"


subsection \<open>Registrations\<close>

definition addReg ::
  "('key, 'signer) registration \<Rightarrow> ('key, 'signer) State \<Rightarrow> ('key, 'signer) State" where
  "addReg reg s = s\<lparr>regs := regs s @ [reg]\<rparr>"

text \<open>
  \<open>getReg\<close>, with the number \<open>k\<close> its call of \<open>mrand.Intn\<close> yields. The pointer it returns is
  the index of the registration in \<open>regs\<close> (registrations are appended, never removed, so
  the index names the same registration for the rest of the run); an index outside the
  slice panics.
\<close>

definition getReg :: "int \<Rightarrow> ('key, 'signer) State \<Rightarrow> nat option go" where
  "getReg k s =
     (let regsLength = int (length (regs s)) in
      if regsLength = 0 then Return None
      else (case mrand_Intn k regsLength of
              Panic p \<Rightarrow> Panic p
            | Return i \<Rightarrow>
                if 0 \<le> i \<and> i < regsLength then Return (Some (nat i))
                else Panic IndexOutOfRange))"

subsection \<open>\<open>sendCall\<close>\<close>

text \<open>
  The bodies of \<open>newRegistration\<close>, \<open>newAuthorization\<close>, \<open>newCertificate\<close> and
  \<open>revokeCertificate\<close> are not part of the examined source. They are an argument of the
  model: \<open>body c reg s\<close> is the state the body of call \<open>c\<close> leaves when it runs on the
  registration \<open>reg\<close> (\<open>None\<close> for nil) in state \<open>s\<close>.
\<close>

type_synonym ('key, 'signer) bodies =
  "call \<Rightarrow> nat option \<Rightarrow> ('key, 'signer) State \<Rightarrow> ('key, 'signer) State"

text \<open>The list of profiles \<open>sendCall\<close> builds for the registration \<open>getReg\<close> returned.\<close>

definition sendCall_actionList ::
  "nat option \<Rightarrow> ('key, 'signer) State \<Rightarrow> call probabilityProfile list" where
  "sendCall_actionList reg s =
     (if maxRegs s = 0 \<or> int (length (regs s)) < maxRegs s
      then [\<lparr>prob = 1, action = NewRegistration\<rparr>] else [])
     @ (case reg of
          None \<Rightarrow> []
        | Some i \<Rightarrow>
            [\<lparr>prob = 3, action = NewAuthorization\<rparr>]
            @ (if length (auths (regs s ! i)) > 0 then [\<lparr>prob = 4, action = NewCertificate\<rparr>] else [])
            @ (if length (certs (regs s ! i)) > 0 then [\<lparr>prob = 2, action = RevokeCertificate\<rparr>] else []))"

text \<open>\<open>s.wg.Done()\<close>: the counter goes down by one, and may not go below zero.\<close>

definition wg_Done :: "('key, 'signer) State \<Rightarrow> ('key, 'signer) State go" where
  "wg_Done s = (if wg s - 1 < 0 then Panic NegativeCounter else Return (s\<lparr>wg := wg s - 1\<rparr>))"

text \<open>
  \<open>sendCall\<close>, with the numbers \<open>k1\<close> and \<open>k2\<close> that \<open>getReg\<close> and \<open>weightedCall\<close> draw. The
  value \<open>weightedCall\<close> returns is called at once: calling the nil func value panics, and
  \<open>s.wg.Done()\<close> is then not reached.
\<close>

definition sendCall ::
  "('key, 'signer) bodies \<Rightarrow> int \<Rightarrow> int \<Rightarrow> ('key, 'signer) State \<Rightarrow> ('key, 'signer) State go" where
  "sendCall body k1 k2 s =
     (case getReg k1 s of
        Panic p \<Rightarrow> Panic p
      | Return reg \<Rightarrow>
          (case weightedCall (sendCall_actionList reg s) k2 of
             Panic p \<Rightarrow> Panic p
           | Return None \<Rightarrow> Panic NilDereference
           | Return (Some c) \<Rightarrow> wg_Done (body c reg s)))"

subsection \<open>Warmup\<close>

text \<open>
  Where a warmup worker stands: before the test of its loop, before its call of
  \<open>newRegistration\<close>, or after its loop.
\<close>

datatype worker = AtCheck | AtCreate | Finished

text \<open>
  One step of worker \<open>i\<close>. At the test it leaves the loop when \<open>len(s.regs) >= s.warmupRegs\<close>;
  at the call it runs \<open>s.newRegistration(nil)\<close>. A worker that has finished, or a number that
  names no worker, does nothing.
\<close>

definition warmup_step ::
  "('key, 'signer) bodies \<Rightarrow> nat \<Rightarrow> ('key, 'signer) State \<times> worker list
     \<Rightarrow> ('key, 'signer) State \<times> worker list" where
  "warmup_step body i sw =
     (case sw of (s, ws) \<Rightarrow>
        if i < length ws then
          (case ws ! i of
             AtCheck \<Rightarrow>
               if int (length (regs s)) \<ge> warmupRegs s then (s, ws[i := Finished])
               else (s, ws[i := AtCreate])
           | AtCreate \<Rightarrow> (body NewRegistration None s, ws[i := AtCheck])
           | Finished \<Rightarrow> (s, ws))
        else (s, ws))"

text \<open>
  \<open>warmup\<close> under a schedule: the list names, step by step, the worker that moves next.
  \<open>wg.Wait()\<close> returns once every worker has left its loop; \<open>None\<close> when the schedule ends
  before that. The output of the progress printer is left out.
\<close>

definition warmup ::
  "('key, 'signer) bodies \<Rightarrow> nat list \<Rightarrow> ('key, 'signer) State \<Rightarrow> ('key, 'signer) State option" where
  "warmup body schedule s =
     (case fold (warmup_step body) schedule (s, replicate (nat (warmupWorkers s)) AtCheck) of
        (s', ws) \<Rightarrow> if list_all (\<lambda>w. w = Finished) ws then Some s' else None)"

subsection \<open>\<open>Run\<close>\<close>

text \<open>
  What \<open>Run\<close> asks of the operating system (\<open>cmd.Start\<close> for a command line, \<open>Kill\<close> for a
  process that exists), and the bodies of the four calls.
\<close>

record ('key, 'signer) environment =
  bodies :: "('key, 'signer) bodies"
  cmd_Start :: "string list \<Rightarrow> error + process"
  process_Kill :: "process \<Rightarrow> error option"

text \<open>The first step of \<open>Run\<close>: the warmup, when the target is above the population.\<close>

definition Run_warmup ::
  "('key, 'signer) bodies \<Rightarrow> nat list \<Rightarrow> ('key, 'signer) State \<Rightarrow> ('key, 'signer) State option" where
  "Run_warmup body schedule s =
     (if warmupRegs s > int (length (regs s)) then warmup body schedule s else Some s)"

text \<open>The start of the challenge server: skipped, failed with an error, or done.\<close>

definition Run_start ::
  "('key, 'signer) environment \<Rightarrow> string \<Rightarrow> bool \<Rightarrow> string \<Rightarrow> ('key, 'signer) State
     \<Rightarrow> error + ('key, 'signer) State \<times> event list" where
  "Run_start env binName dontRunChallSrv httpOneAddr s =
     (if \<not> dontRunChallSrv then
        (let argv = [binName, ''chall-srv'', ''--rpcAddr='' @ challRPCAddr s,
                     ''--httpOneAddr='' @ httpOneAddr] in
         case cmd_Start env argv of
           Inl err \<Rightarrow> Inl err
         | Inr p \<Rightarrow> Inr (s\<lparr>challSrvProc := Some p\<rparr>, [CmdStarted argv]))
      else Inr (s, []))"

text \<open>
  The sending loop beside the run plan, under a schedule. \<open>PlanSegment\<close>: the goroutine of
  \<open>executePlan\<close> starts its next segment (nothing when the plan is exhausted).
  \<open>SendCall k1 k2\<close>: one pass of the sending loop, \<open>s.wg.Add(1)\<close>, then \<open>go s.sendCall()\<close>
  with the spawned call run at once, then the sleep of \<open>time.Second.Nanoseconds()\<close> divided
  by the throughput (division truncates; a zero throughput panics). The schedule ends when
  the loop reads the stop signal.
\<close>

datatype tick = PlanSegment | SendCall int int

fun sending_loop ::
  "('key, 'signer) environment \<Rightarrow> tick list \<Rightarrow> RatePeriod list
     \<Rightarrow> ('key, 'signer) State \<times> event list \<Rightarrow> (('key, 'signer) State \<times> event list) go" where
  "sending_loop env [] plan st = Return st"
| "sending_loop env (PlanSegment # ts) plan st =
     (case plan of
        [] \<Rightarrow> sending_loop env ts [] st
      | p # ps \<Rightarrow> sending_loop env ts ps (executePlan_segment p st))"
| "sending_loop env (SendCall k1 k2 # ts) plan st =
     (case st of (s, tr) \<Rightarrow>
        (case sendCall (bodies env) k1 k2 (s\<lparr>wg := wg s + 1\<rparr>) of
           Panic p \<Rightarrow> Panic p
         | Return s' \<Rightarrow>
             if throughput s' = 0 then Panic DivideByZero
             else sending_loop env ts plan
                    (s', tr @ [Spawned, Slept (1000000000 sdiv throughput s')])))"

text \<open>
  \<open>Run\<close>, with the instants read at its start and its end and the two schedules. The result
  is \<open>None\<close> when \<open>Run\<close> does not return under the schedules (the warmup does not finish, or
  \<open>s.wg.Wait()\<close> waits for a counter that is not zero); otherwise \<open>Run\<close> panics, or returns
  its error (\<open>None\<close> for nil) with the state and the events after the warmup.
  \<open>s.challSrvProc.Kill()\<close> on the nil pointer panics.
\<close>

definition Run ::
  "('key, 'signer) environment \<Rightarrow> time \<Rightarrow> time \<Rightarrow> nat list \<Rightarrow> tick list
     \<Rightarrow> string \<Rightarrow> bool \<Rightarrow> string \<Rightarrow> ('key, 'signer) State
     \<Rightarrow> (error option \<times> ('key, 'signer) State \<times> event list) go option" where
  "Run env started stopped schedule ticks binName dontRunChallSrv httpOneAddr s0 =
     (let s1 = s0\<lparr>callLatency := (callLatency s0)\<lparr>Started := started\<rparr>\<rparr> in
      case Run_warmup (bodies env) schedule s1 of
        None \<Rightarrow> None
      | Some s2 \<Rightarrow>
          (case Run_start env binName dontRunChallSrv httpOneAddr s2 of
             Inl err \<Rightarrow> Some (Return (Some err, s2, []))
           | Inr (s3, tr3) \<Rightarrow>
               (let tr4 = tr3 @ (if length (runPlan s3) > 0 then [PlanLaunched] else []) in
                case sending_loop env ticks (runPlan s3) (s3, tr4) of
                  Panic p \<Rightarrow> Some (Panic p)
                | Return (s5, tr5) \<Rightarrow>
                    if wg s5 \<noteq> 0 then None
                    else
                      (let tr6 = tr5 @ [Slept (runtime s5), Printed ''SLEEP END'', StopSent,
                                        Printed ''SENT STOP'', Waited,
                                        Printed ''KILLING CHALL SERVER''] in
                       case challSrvProc s5 of
                         None \<Rightarrow> Some (Panic NilDereference)
                       | Some p \<Rightarrow>
                           (let tr7 = tr6 @ [Killed p]
                                  @ (case process_Kill env p of
                                       Some err \<Rightarrow> [Printed ''Error killing challenge server: %s'']
                                     | None \<Rightarrow> [])
                                  @ [Printed ''ALL DONE''] in
                            Some (Return (None,
                                          s5\<lparr>callLatency := (callLatency s5)\<lparr>Stopped := stopped\<rparr>\<rparr>,
                                          tr7)))))))"

subsection \<open>Notions the properties are stated with\<close>

text \<open>
  The registration a record of a snapshot stands for: none when its key does not parse or no
  signer can be built from the key.
\<close>

definition restored_registration ::
  "('key, 'signer, 'doc) library \<Rightarrow> rawRegistration \<Rightarrow> ('key, 'signer) registration option" where
  "restored_registration lib r =
     (case x509_ParsePKCS1PrivateKey lib (RawKey r) of
        Inl err \<Rightarrow> None
      | Inr k \<Rightarrow>
          (case jose_NewSigner lib k of
             Inl err \<Rightarrow> None
           | Inr sg \<Rightarrow> Some \<lparr>key = k, signer = sg, auths = [], certs = Certs r\<rparr>))"

text \<open>
  What the warmup needs of the body of \<open>newRegistration\<close>: a call leaves the registrations
  as they are or appends one (by \<open>addReg\<close>), and does not change the warmup target or the cap.
\<close>

definition creates_at_most_one :: "('key, 'signer) bodies \<Rightarrow> bool" where
  "creates_at_most_one body \<longleftrightarrow>
     (\<forall>s. (regs (body NewRegistration None s) = regs s
            \<or> (\<exists>r. regs (body NewRegistration None s) = regs s @ [r]))
          \<and> warmupRegs (body NewRegistration None s) = warmupRegs s
          \<and> maxRegs (body NewRegistration None s) = maxRegs s)"

text \<open>The number of workers that passed the test and have not yet made their call.\<close>

definition creating :: "worker list \<Rightarrow> int" where
  "creating ws = sum_list (map (\<lambda>w. if w = AtCreate then 1 else 0) ws)"

text \<open>
  The invariant of the warmup, for the target \<open>W\<close>, the cap \<open>M\<close>, the population \<open>len0\<close> at its
  start and \<open>n\<close> workers.
\<close>

definition warmup_inv ::
  "int \<Rightarrow> int \<Rightarrow> int \<Rightarrow> nat \<Rightarrow> ('key, 'signer) State \<times> worker list \<Rightarrow> bool" where
  "warmup_inv W M len0 n sw =
     (case sw of (s, ws) \<Rightarrow>
        warmupRegs s = W \<and> maxRegs s = M \<and> length ws = n \<and> len0 \<le> int (length (regs s))
        \<and> int (length (regs s)) + creating ws \<le> max len0 (W + int n - 1)
        \<and> (Finished \<in> set ws \<longrightarrow> W \<le> int (length (regs s))))"

subsection \<open>Example inputs\<close>

text \<open>A client whose directory request answers with the nonce \<open>n0\<close>.\<close>

definition demo_client :: http_Client where
  "demo_client =
     \<lparr>answers = (\<lambda>i req. if req = (''HEAD'', ''https://ca.test/directory'')
                          then Inr \<lparr>header = [''Replay-Nonce'' \<mapsto> ''n0'']\<rparr>
                          else Inl (Error ''connection refused'')),
      requests = []\<rparr>"

text \<open>
  Bodies for the examples: \<open>newRegistration\<close> always creates a registration, the other
  calls change nothing. An operating system whose challenge server starts as process 4242
  and is killed without error, and one whose challenge server does not start.
\<close>

definition demo_bodies :: "(nat, nat) bodies" where
  "demo_bodies c reg s =
     (case c of
        NewRegistration \<Rightarrow> addReg \<lparr>key = 2, signer = 102, auths = [], certs = []\<rparr> s
      | NewAuthorization \<Rightarrow> s
      | NewCertificate \<Rightarrow> s
      | RevokeCertificate \<Rightarrow> s)"

definition demo_environment :: "(nat, nat) environment" where
  "demo_environment =
     \<lparr>bodies = demo_bodies, cmd_Start = (\<lambda>argv. Inr 4242), process_Kill = (\<lambda>p. None)\<rparr>"

definition failing_environment :: "(nat, nat) environment" where
  "failing_environment =
     \<lparr>bodies = demo_bodies,
      cmd_Start = (\<lambda>argv. Inl (Error ''exec: executable file not found'')),
      process_Kill = (\<lambda>p. None)\<rparr>"

text \<open>The state \<open>New\<close> returns for a plan, a cap, a warmup target and a number of workers.\<close>

definition demo_state :: "RatePeriod list \<Rightarrow> int \<Rightarrow> int \<Rightarrow> int \<Rightarrow> (nat, nat) State" where
  "demo_state plan maxR warmupR warmupW =
     projr (New (Inr 7) demo_client ''localhost:9999'' ''https://ca.test'' 1 ''example.test''
              1000000000 ''terms'' ''127.0.0.1'' plan maxR warmupR warmupW)"

text \<open>The list \<open>sendCall\<close> builds when all four calls are eligible.\<close>

definition all_four :: "call probabilityProfile list" where
  "all_four =
     [\<lparr>prob = 1, action = NewRegistration\<rparr>, \<lparr>prob = 3, action = NewAuthorization\<rparr>,
      \<lparr>prob = 4, action = NewCertificate\<rparr>, \<lparr>prob = 2, action = RevokeCertificate\<rparr>]"

text \<open>
  A library for the examples: a key is a number, written as that many bytes; no bytes at
  all do not parse, no signer can be built from the key 13, and documents are snapshots
  themselves.
\<close>

definition demo_library :: "(nat, nat, snapshot) library" where
  "demo_library =
     \<lparr>x509_MarshalPKCS1PrivateKey = (\<lambda>k. replicate k 1),
      x509_ParsePKCS1PrivateKey =
        (\<lambda>bs. if bs = [] then Inl (Error ''asn1: syntax error'') else Inr (length bs)),
      jose_NewSigner = (\<lambda>k. if k = 13 then Inl (Error ''unsupported key'') else Inr (k + 100)),
      json_Marshal = Inr,
      json_Unmarshal = Inr\<rparr>"

text \<open>
  A file system with one snapshot of four records: the key of the second does not parse, no
  signer can be built from the key of the third.
\<close>

definition demo_filesystem :: "snapshot filesystem" where
  "demo_filesystem =
     \<lparr>files = [''regs.json'' \<mapsto>
        \<lparr>Registrations = [\<lparr>Certs = [''c1'', ''c2''], RawKey = [1, 1]\<rparr>,
                           \<lparr>Certs = [''c3''], RawKey = []\<rparr>,
                           \<lparr>Certs = [''c4''], RawKey = replicate 13 1\<rparr>,
                           \<lparr>Certs = [], RawKey = [1, 1, 1]\<rparr>]\<rparr>],
      unwritable = {''/proc/regs.json''}\<rparr>"

subsection \<open>Properties of \<open>weightedCall\<close>\<close>

lemma inner_loop_lookup:
  "Mapping.lookup (fold (\<lambda>i c. Mapping.update (i + (n::int)) a c) xs c) k =
     (if k - n \<in> set xs then Some a else Mapping.lookup c k)"
  by (induction xs arbitrary: c) (auto simp: Mapping.lookup_update')

lemma cumulative_pick_nonneg:
  "\<forall>pp \<in> set ps. 0 \<le> prob pp \<Longrightarrow> cumulative_pick ps k = Some a \<Longrightarrow> 0 \<le> k"
  by (induction ps arbitrary: k) (fastforce split: if_splits)+

lemma cumulative_pick_in_range:
  "\<forall>pp \<in> set ps. 0 \<le> prob pp \<Longrightarrow> 0 \<le> k \<Longrightarrow> k < sum_list (map prob ps) \<Longrightarrow>
   cumulative_pick ps k \<noteq> None"
  by (induction ps arbitrary: k) (fastforce split: if_splits)+

lemma outer_loop_count:
  "snd (fold weightedCall_step pps (c, n)) = n + sum_list (map prob pps)"
  by (induction pps arbitrary: c n) (auto simp: weightedCall_step_def)

lemma outer_loop_lookup:
  "\<forall>pp \<in> set pps. 0 \<le> prob pp \<Longrightarrow>
   Mapping.lookup (fst (fold weightedCall_step pps (c, n))) k =
     (case cumulative_pick pps (k - n) of Some a \<Rightarrow> Some a | None \<Rightarrow> Mapping.lookup c k)"
proof (induction pps arbitrary: c n)
  case Nil
  then show ?case by simp
next
  case (Cons pp ps)
  have nn: "\<forall>pp \<in> set ps. 0 \<le> prob pp" using Cons.prems by simp
  show ?case
  proof (cases "cumulative_pick ps (k - (n + prob pp))")
    case None
    then show ?thesis
      using Cons.IH[OF nn] by (auto simp: weightedCall_step_def inner_loop_lookup diff_diff_eq)
  next
    case (Some a)
    then have "0 \<le> k - (n + prob pp)" using cumulative_pick_nonneg[OF nn] by blast
    then show ?thesis
      using Cons.IH[OF nn] Some Cons.prems
      by (auto simp: weightedCall_step_def inner_loop_lookup diff_diff_eq)
  qed
qed

lemma cumulative_0: "cumulative pps 0 = 0"
  by (simp add: cumulative_def)

lemma cumulative_length: "cumulative pps (length pps) = sum_list (map prob pps)"
  by (simp add: cumulative_def)

lemma cumulative_Suc:
  "j < length pps \<Longrightarrow> cumulative pps (Suc j) = cumulative pps j + prob (pps ! j)"
  by (simp add: cumulative_def take_Suc_conv_app_nth)

lemma cumulative_mono:
  "\<forall>pp \<in> set pps. 0 \<le> prob pp \<Longrightarrow> i \<le> j \<Longrightarrow> cumulative pps i \<le> cumulative pps j"
proof (induction pps arbitrary: i j)
  case Nil
  then show ?case by (simp add: cumulative_def)
next
  case (Cons pp ps)
  show ?case
  proof (cases i)
    case 0
    have "0 \<le> sum_list (map prob (take j (pp # ps)))"
      using Cons.prems(1) by (intro sum_list_nonneg) (auto dest!: in_set_takeD)
    then show ?thesis using 0 by (simp add: cumulative_def)
  next
    case (Suc i')
    then obtain j' where j: "j = Suc j'" "i' \<le> j'" using Cons.prems(2) by (cases j) auto
    have "cumulative ps i' \<le> cumulative ps j'" using Cons.IH[OF _ j(2)] Cons.prems(1) by simp
    then show ?thesis using Suc j by (simp add: cumulative_def)
  qed
qed

lemma cumulative_pick_interval:
  "\<forall>pp \<in> set pps. 0 \<le> prob pp \<Longrightarrow> j < length pps \<Longrightarrow>
   cumulative pps j \<le> k \<Longrightarrow> k < cumulative pps (Suc j) \<Longrightarrow>
   cumulative_pick pps k = Some (action (pps ! j))"
proof (induction pps arbitrary: j k)
  case Nil
  then show ?case by simp
next
  case (Cons pp ps)
  show ?case
  proof (cases j)
    case 0
    then show ?thesis using Cons.prems by (simp add: cumulative_def)
  next
    case (Suc i)
    have "0 \<le> sum_list (map prob (take i ps))"
      using Cons.prems(1) by (intro sum_list_nonneg) (auto dest!: in_set_takeD)
    then have "cumulative_pick (pp # ps) k = cumulative_pick ps (k - prob pp)"
      using Cons.prems Suc by (auto simp: cumulative_def)
    moreover have "cumulative_pick ps (k - prob pp) = Some (action (ps ! i))"
      using Cons.prems Suc by (intro Cons.IH) (auto simp: cumulative_def)
    ultimately show ?thesis using Suc by simp
  qed
qed

lemma interval_exists:
  "\<forall>pp \<in> set pps. 0 \<le> prob pp \<Longrightarrow> 0 \<le> k \<Longrightarrow> k < sum_list (map prob pps) \<Longrightarrow>
   \<exists>j < length pps. cumulative pps j \<le> k \<and> k < cumulative pps (Suc j)"
proof (induction pps arbitrary: k)
  case Nil
  then show ?case by simp
next
  case (Cons pp ps)
  show ?case
  proof (cases "k < prob pp")
    case True
    then have "cumulative (pp # ps) 0 \<le> k \<and> k < cumulative (pp # ps) (Suc 0)"
      using Cons.prems by (simp add: cumulative_def)
    then show ?thesis by blast
  next
    case False
    then obtain j where
      "j < length ps" "cumulative ps j \<le> k - prob pp" "k - prob pp < cumulative ps (Suc j)"
      using Cons.IH[of "k - prob pp"] Cons.prems by auto
    then have "Suc j < length (pp # ps) \<and> cumulative (pp # ps) (Suc j) \<le> k
        \<and> k < cumulative (pp # ps) (Suc (Suc j))"
      by (simp add: cumulative_def)
    then show ?thesis by blast
  qed
qed

lemma weightedCall_cumulative_pick:
  assumes nn: "\<forall>pp \<in> set pps. 0 \<le> prob pp"
    and k: "0 \<le> k" "k < sum_list (map prob pps)"
  shows "weightedCall pps k = Return (cumulative_pick pps k)"
proof -
  obtain c n where cn: "fold weightedCall_step pps (Mapping.empty, 0) = (c, n)"
    by (cases "fold weightedCall_step pps (Mapping.empty, 0)")
  have n: "n = sum_list (map prob pps)"
    using outer_loop_count[of pps Mapping.empty 0] cn by simp
  have lk: "Mapping.lookup c k = cumulative_pick pps k" for k
    using outer_loop_lookup[OF nn, of Mapping.empty 0 k] cn by (simp split: option.splits)
  have "cumulative_pick pps k \<noteq> None" using cumulative_pick_in_range[OF nn k] .
  then have "Mapping.lookup c k \<noteq> None" using lk by simp
  then have "\<not> Mapping.is_empty c"
    by (auto simp: Mapping.is_empty_def keys_dom_lookup)
  then show ?thesis using cn n k lk by (simp add: weightedCall_def mrand_Intn_def)
qed

lemma weightedCall_indices_of_action:
  assumes nn: "\<forall>pp \<in> set pps. 0 \<le> prob pp"
    and d: "distinct (map action pps)"
    and j: "j < length pps"
  shows "{k. 0 \<le> k \<and> k < sum_list (map prob pps)
            \<and> weightedCall pps k = Return (Some (action (pps ! j)))}
         = {cumulative pps j ..< cumulative pps (Suc j)}" (is "?L = ?R")
proof (intro set_eqI iffI)
  fix k assume "k \<in> ?R"
  then have kr: "cumulative pps j \<le> k" "k < cumulative pps (Suc j)" by auto
  have "0 \<le> cumulative pps j" using cumulative_mono[OF nn, of 0 j] by (simp add: cumulative_0)
  moreover have "cumulative pps (Suc j) \<le> sum_list (map prob pps)"
    using cumulative_mono[OF nn, of "Suc j" "length pps"] j by (simp add: cumulative_length)
  ultimately have k: "0 \<le> k" "k < sum_list (map prob pps)" using kr by auto
  show "k \<in> ?L"
    using weightedCall_cumulative_pick[OF nn k] cumulative_pick_interval[OF nn j kr] k by simp
next
  fix k assume "k \<in> ?L"
  then have k: "0 \<le> k" "k < sum_list (map prob pps)"
    and w: "weightedCall pps k = Return (Some (action (pps ! j)))" by auto
  obtain i where i: "i < length pps" "cumulative pps i \<le> k" "k < cumulative pps (Suc i)"
    using interval_exists[OF nn k] by blast
  have "cumulative_pick pps k = Some (action (pps ! i))"
    using cumulative_pick_interval[OF nn i] .
  then have "action (pps ! i) = action (pps ! j)"
    using w weightedCall_cumulative_pick[OF nn k] by simp
  then have "i = j" using d i(1) j by (auto simp: distinct_conv_nth)
  then show "k \<in> ?R" using i by simp
qed

text \<open>
  Claim C1. For a list of profiles with weights that are not negative (the weights 1, 3, 4, 2
  of \<open>sendCall\<close> among them) and pairwise different actions: every index \<open>k\<close> of the
  weight-expanded space \<open>[0, total weight)\<close> lies in the cumulative-weight interval of one
  profile and \<open>weightedCall\<close> returns the action of that profile; and the number of indices
  that give the action of profile \<open>j\<close> is the weight of profile \<open>j\<close>. A uniform draw of \<open>k\<close>
  therefore picks each action with probability weight / total weight.
\<close>

theorem weightedCall_weight_expanded_draw:
  assumes "\<forall>pp \<in> set pps. 0 \<le> prob pp"
    and "distinct (map action pps)"
  shows "(\<forall>k. 0 \<le> k \<and> k < sum_list (map prob pps) \<longrightarrow>
            (\<exists>j < length pps. cumulative pps j \<le> k \<and> k < cumulative pps (Suc j)
                \<and> weightedCall pps k = Return (Some (action (pps ! j)))))
       \<and> (\<forall>j < length pps.
            card {k. 0 \<le> k \<and> k < sum_list (map prob pps)
                     \<and> weightedCall pps k = Return (Some (action (pps ! j)))}
              = nat (prob (pps ! j)))"
proof (intro conjI allI impI)
  fix k assume k: "0 \<le> k \<and> k < sum_list (map prob pps)"
  then obtain j where j: "j < length pps" "cumulative pps j \<le> k" "k < cumulative pps (Suc j)"
    using interval_exists[OF assms(1)] by blast
  have "weightedCall pps k = Return (Some (action (pps ! j)))"
    using weightedCall_cumulative_pick[OF assms(1)] k cumulative_pick_interval[OF assms(1) j]
    by simp
  then show "\<exists>j < length pps. cumulative pps j \<le> k \<and> k < cumulative pps (Suc j)
      \<and> weightedCall pps k = Return (Some (action (pps ! j)))"
    using j by blast
next
  fix j assume j: "j < length pps"
  show "card {k. 0 \<le> k \<and> k < sum_list (map prob pps)
                 \<and> weightedCall pps k = Return (Some (action (pps ! j)))}
          = nat (prob (pps ! j))"
    using weightedCall_indices_of_action[OF assms j] cumulative_Suc[OF j] by simp
qed

theorem weightedCall_weight_expanded_draw_witness:
  "card {k. 0 \<le> k \<and> k < 10 \<and> weightedCall all_four k = Return (Some NewRegistration)} = 1
 \<and> card {k. 0 \<le> k \<and> k < 10 \<and> weightedCall all_four k = Return (Some NewAuthorization)} = 3
 \<and> card {k. 0 \<le> k \<and> k < 10 \<and> weightedCall all_four k = Return (Some NewCertificate)} = 4
 \<and> card {k. 0 \<le> k \<and> k < 10 \<and> weightedCall all_four k = Return (Some RevokeCertificate)} = 2"
proof -
  have h1: "\<forall>pp \<in> set all_four. 0 \<le> prob pp" by (simp add: all_four_def)
  have h2: "distinct (map action all_four)" by (simp add: all_four_def)
  have t: "sum_list (map prob all_four) = 10" by (simp add: all_four_def)
  have c: "\<forall>j < length all_four.
            card {k. 0 \<le> k \<and> k < sum_list (map prob all_four)
                     \<and> weightedCall all_four k = Return (Some (action (all_four ! j)))}
              = nat (prob (all_four ! j))"
    using weightedCall_weight_expanded_draw[OF h1 h2] by blast
  have "length all_four = 4" by (simp add: all_four_def)
  then have l: "0 < length all_four" "1 < length all_four" "2 < length all_four"
    "3 < length all_four" by simp_all
  from c[rule_format, OF l(1)] c[rule_format, OF l(2)] c[rule_format, OF l(3)]
    c[rule_format, OF l(4)]
  show ?thesis unfolding t by (simp add: all_four_def)
qed

subsection \<open>Properties of the nonce pool\<close>



text \<open>
  Claim C10. On an empty pool, when the directory request answers with a nonce header,
  \<open>Nonce\<close> returns that nonce and does not put it into the pool: the pool is as empty after
  the call as before.
\<close>

theorem Nonce_probe_not_pooled:
  assumes "noncePool s = []"
    and "answers (client s) (length (requests (client s))) (''HEAD'', apiBase s @ ''/directory'')
           = Inr resp"
    and "header_Get resp ''Replay-Nonce'' \<noteq> []"
  shows "fst (Nonce t1 t2 s) = Inr (header_Get resp ''Replay-Nonce'')
       \<and> noncePool (snd (Nonce t1 t2 s)) = noncePool s"
  using assms by (simp add: Nonce_def client_Head_def Let_def)

theorem Nonce_probe_not_pooled_witness:
  "fst (Nonce 1 2 (demo_state [] 0 0 0)) = Inr ''n0''
 \<and> noncePool (snd (Nonce 1 2 (demo_state [] 0 0 0))) = []"
proof -
  have e: "noncePool (demo_state [] 0 0 0) = []"
    by (simp add: demo_state_def New_def)
  have a: "answers (client (demo_state [] 0 0 0)) (length (requests (client (demo_state [] 0 0 0))))
       (''HEAD'', apiBase (demo_state [] 0 0 0) @ ''/directory'')
       = Inr \<lparr>header = [''Replay-Nonce'' \<mapsto> ''n0'']\<rparr>"
    by (simp add: demo_state_def New_def demo_client_def)
  have h: "header_Get \<lparr>header = [''Replay-Nonce'' \<mapsto> ''n0'']\<rparr> ''Replay-Nonce'' \<noteq> []"
    by (simp add: header_Get_def)
  show ?thesis
    using Nonce_probe_not_pooled[OF e a h, of 1 2] e by (simp add: header_Get_def)
qed

subsection \<open>Properties of the run plan\<close>

lemma executePlan_fold:
  "fold executePlan_segment plan (s, tr) =
     (if plan = [] then s else s\<lparr>throughput := Rate (last plan)\<rparr>,
      tr @ concat (map (\<lambda>p. [Stored (Rate p), Printed ''Set base action rate to %d/s for %s'',
                               Slept (For p)]) plan))"
proof (induction plan arbitrary: s tr)
  case Nil
  then show ?case by simp
next
  case (Cons p ps)
  have step: "executePlan_segment p (s, tr) =
      (s\<lparr>throughput := Rate p\<rparr>,
       tr @ [Stored (Rate p), Printed ''Set base action rate to %d/s for %s'', Slept (For p)])"
    by (simp add: executePlan_segment_def)
  show ?case by (simp add: step Cons.IH)
qed

text \<open>
  Claim C8. \<open>executePlan\<close> goes through the segments of the plan in their order: for each
  segment it stores the rate of the segment in the throughput, prints, and sleeps for the
  duration of the segment; it ends after the last segment, and the throughput is then the
  rate of the last segment (unchanged when the plan is empty). After the pass for segment
  \<open>i\<close>, that is while \<open>executePlan\<close> sleeps there, the throughput is the rate of segment \<open>i\<close>.
\<close>

theorem executePlan_in_sequence:
  "executePlan s =
     (if runPlan s = [] then s else s\<lparr>throughput := Rate (last (runPlan s))\<rparr>,
      concat (map (\<lambda>p. [Stored (Rate p), Printed ''Set base action rate to %d/s for %s'',
                         Slept (For p)]) (runPlan s)))
 \<and> (\<forall>i < length (runPlan s).
        throughput (fst (fold executePlan_segment (take (Suc i) (runPlan s)) (s, [])))
          = Rate (runPlan s ! i))"
proof (intro conjI allI impI)
  show "executePlan s =
     (if runPlan s = [] then s else s\<lparr>throughput := Rate (last (runPlan s))\<rparr>,
      concat (map (\<lambda>p. [Stored (Rate p), Printed ''Set base action rate to %d/s for %s'',
                         Slept (For p)]) (runPlan s)))"
    by (simp add: executePlan_def executePlan_fold)
next
  fix i assume i: "i < length (runPlan s)"
  have t: "take (Suc i) (runPlan s) \<noteq> []" using i by auto
  have "last (take (Suc i) (runPlan s)) = runPlan s ! i"
    using i by (simp add: take_Suc_conv_app_nth)
  then show "throughput (fst (fold executePlan_segment (take (Suc i) (runPlan s)) (s, [])))
      = Rate (runPlan s ! i)"
    using t unfolding executePlan_fold by simp
qed

theorem executePlan_in_sequence_witness:
  "executePlan (demo_state [\<lparr>For = 1000000000, Rate = 5\<rparr>, \<lparr>For = 1000000000, Rate = 50\<rparr>] 0 0 0) =
     ((demo_state [\<lparr>For = 1000000000, Rate = 5\<rparr>, \<lparr>For = 1000000000, Rate = 50\<rparr>] 0 0 0)
         \<lparr>throughput := 50\<rparr>,
      [Stored 5, Printed ''Set base action rate to %d/s for %s'', Slept 1000000000,
       Stored 50, Printed ''Set base action rate to %d/s for %s'', Slept 1000000000])
 \<and> throughput (fst (fold executePlan_segment [\<lparr>For = 1000000000, Rate = 5\<rparr>]
        (demo_state [\<lparr>For = 1000000000, Rate = 5\<rparr>, \<lparr>For = 1000000000, Rate = 50\<rparr>] 0 0 0, []))) = 5"
proof -
  let ?s = "demo_state [\<lparr>For = 1000000000, Rate = 5\<rparr>, \<lparr>For = 1000000000, Rate = 50\<rparr>] 0 0 0"
  have p: "runPlan ?s = [\<lparr>For = 1000000000, Rate = 5\<rparr>, \<lparr>For = 1000000000, Rate = 50\<rparr>]"
    by (simp add: demo_state_def New_def)
  have "0 < length (runPlan ?s)" by (simp add: p)
  then have "throughput (fst (fold executePlan_segment (take (Suc 0) (runPlan ?s)) (?s, [])))
      = Rate (runPlan ?s ! 0)"
    using executePlan_in_sequence[of ?s] by blast
  then show ?thesis using executePlan_in_sequence[of ?s] p by simp
qed

subsection \<open>Properties of snapshot and restore\<close>

lemma Restore_record_restored:
  "Restore_record lib r s =
     s\<lparr>regs := regs s @ (case restored_registration lib r of None \<Rightarrow> [] | Some reg \<Rightarrow> [reg])\<rparr>"
  by (simp add: Restore_record_def restored_registration_def split: sum.splits)

lemma Restore_fold:
  "fold (Restore_record lib) rs s = s\<lparr>regs := regs s @ List.map_filter (restored_registration lib) rs\<rparr>"
proof (induction rs arbitrary: s)
  case Nil
  then show ?case by simp
next
  case (Cons r rs)
  have "fold (Restore_record lib) (r # rs) s = fold (Restore_record lib) rs (Restore_record lib r s)"
    by simp
  also have "\<dots> = (Restore_record lib r s)\<lparr>regs := regs (Restore_record lib r s)
      @ List.map_filter (restored_registration lib) rs\<rparr>"
    by (rule Cons.IH)
  also have "\<dots> = s\<lparr>regs := regs s @ List.map_filter (restored_registration lib) (r # rs)\<rparr>"
    by (simp add: Restore_record_restored split: option.splits)
  finally show ?case .
qed

text \<open>
  Claim C7. When the file is read and decoded, \<open>Restore\<close> handles each record on its own: a
  record whose key does not parse, or from whose key no signer can be built, is skipped,
  and every other record is appended, in the order of the document, behind the
  registrations the state held before, which stay as they were; no other field changes.
\<close>

theorem Restore_skips_and_appends:
  assumes "ioutil_ReadFile filename fs = Inr content"
    and "json_Unmarshal lib content = Inr snap"
  shows "Restore lib filename fs s =
           Inr (s\<lparr>regs := regs s @ List.map_filter (restored_registration lib) (Registrations snap)\<rparr>)"
  using assms by (simp add: Restore_def Restore_fold)

theorem Restore_skips_and_appends_witness:
  "Restore demo_library ''regs.json'' demo_filesystem
      ((demo_state [] 0 0 0)\<lparr>regs := [\<lparr>key = 5, signer = 105, auths = [''a1''], certs = []\<rparr>]\<rparr>)
   = Inr ((demo_state [] 0 0 0)\<lparr>regs :=
        [\<lparr>key = 5, signer = 105, auths = [''a1''], certs = []\<rparr>,
         \<lparr>key = 2, signer = 102, auths = [], certs = [''c1'', ''c2'']\<rparr>,
         \<lparr>key = 3, signer = 103, auths = [], certs = []\<rparr>]\<rparr>)"
proof -
  have r: "ioutil_ReadFile ''regs.json'' demo_filesystem = Inr (the (files demo_filesystem ''regs.json''))"
    by (simp add: ioutil_ReadFile_def demo_filesystem_def)
  have u: "json_Unmarshal demo_library (the (files demo_filesystem ''regs.json''))
       = Inr (the (files demo_filesystem ''regs.json''))"
    by (simp add: demo_library_def)
  show ?thesis
    using Restore_skips_and_appends[OF r u,
        of "(demo_state [] 0 0 0)\<lparr>regs := [\<lparr>key = 5, signer = 105, auths = [''a1''], certs = []\<rparr>]\<rparr>"]
    by (simp add: demo_filesystem_def demo_library_def restored_registration_def)
qed

lemma Snapshot_fold:
  "fold (Snapshot_append lib) rs snap =
     snap\<lparr>Registrations := Registrations snap @
       map (\<lambda>r. \<lparr>Certs = certs r, RawKey = x509_MarshalPKCS1PrivateKey lib (key r)\<rparr>) rs\<rparr>"
proof (induction rs arbitrary: snap)
  case Nil
  then show ?case by simp
next
  case (Cons r rs)
  have "fold (Snapshot_append lib) (r # rs) snap =
      fold (Snapshot_append lib) rs (Snapshot_append lib r snap)"
    by simp
  also have "\<dots> = (Snapshot_append lib r snap)\<lparr>Registrations :=
      Registrations (Snapshot_append lib r snap) @
       map (\<lambda>r. \<lparr>Certs = certs r, RawKey = x509_MarshalPKCS1PrivateKey lib (key r)\<rparr>) rs\<rparr>"
    by (rule Cons.IH)
  also have "\<dots> = snap\<lparr>Registrations := Registrations snap @
       map (\<lambda>r. \<lparr>Certs = certs r, RawKey = x509_MarshalPKCS1PrivateKey lib (key r)\<rparr>) (r # rs)\<rparr>"
    by (simp add: Snapshot_append_def)
  finally show ?case .
qed

text \<open>
  Claim C4. Round trip: for a state that holds exactly one registration, whose key parses
  back from its PKCS1 bytes and yields a signer, a document encoding that decodes back and a
  path that can be written, \<open>Snapshot\<close> succeeds and \<open>Restore\<close> of the written file into a
  state without registrations yields exactly one registration, with the certificates and
  the key of the original, the signer built from that key, and no authorizations.
\<close>

theorem Snapshot_Restore_round_trip:
  assumes "regs s = [r]"
    and "x509_ParsePKCS1PrivateKey lib (x509_MarshalPKCS1PrivateKey lib (key r)) = Inr (key r)"
    and "jose_NewSigner lib (key r) = Inr sg"
    and "json_Marshal lib
           \<lparr>Registrations = [\<lparr>Certs = certs r, RawKey = x509_MarshalPKCS1PrivateKey lib (key r)\<rparr>]\<rparr>
         = Inr doc"
    and "json_Unmarshal lib doc =
           Inr \<lparr>Registrations = [\<lparr>Certs = certs r, RawKey = x509_MarshalPKCS1PrivateKey lib (key r)\<rparr>]\<rparr>"
    and "path \<notin> unwritable fs"
    and "regs fresh = []"
  shows "\<exists>fs'. Snapshot lib path s fs = Inr fs'
           \<and> Restore lib path fs' fresh =
               Inr (fresh\<lparr>regs := [\<lparr>key = key r, signer = sg, auths = [], certs = certs r\<rparr>]\<rparr>)"
proof -
  have snap: "Snapshot lib path s fs = Inr (fs\<lparr>files := (files fs)(path \<mapsto> doc)\<rparr>)"
    using assms(1,4,6) by (simp add: Snapshot_def Snapshot_append_def ioutil_WriteFile_def)
  have rd: "ioutil_ReadFile path (fs\<lparr>files := (files fs)(path \<mapsto> doc)\<rparr>) = Inr doc"
    by (simp add: ioutil_ReadFile_def)
  have "Restore lib path (fs\<lparr>files := (files fs)(path \<mapsto> doc)\<rparr>) fresh =
      Inr (fresh\<lparr>regs := [\<lparr>key = key r, signer = sg, auths = [], certs = certs r\<rparr>]\<rparr>)"
    using assms(2,3,5,7) rd by (simp add: Restore_def Restore_record_def)
  then show ?thesis using snap by blast
qed

theorem Snapshot_Restore_round_trip_witness:
  "Snapshot demo_library ''out.json''
      ((demo_state [] 0 0 0)\<lparr>regs := [\<lparr>key = 2, signer = 102, auths = [''a1''], certs = [''c1'', ''c2'']\<rparr>]\<rparr>)
      demo_filesystem
     = Inr (demo_filesystem\<lparr>files := (files demo_filesystem)(''out.json'' \<mapsto>
              \<lparr>Registrations = [\<lparr>Certs = [''c1'', ''c2''], RawKey = [1, 1]\<rparr>]\<rparr>)\<rparr>)
 \<and> Restore demo_library ''out.json''
      (demo_filesystem\<lparr>files := (files demo_filesystem)(''out.json'' \<mapsto>
              \<lparr>Registrations = [\<lparr>Certs = [''c1'', ''c2''], RawKey = [1, 1]\<rparr>]\<rparr>)\<rparr>)
      (demo_state [] 0 0 0)
     = Inr ((demo_state [] 0 0 0)\<lparr>regs := [\<lparr>key = 2, signer = 102, auths = [], certs = [''c1'', ''c2'']\<rparr>]\<rparr>)"
proof -
  let ?r = "\<lparr>key = 2::nat, signer = 102::nat, auths = [''a1''], certs = [''c1'', ''c2'']\<rparr>"
  let ?s = "(demo_state [] 0 0 0)\<lparr>regs := [?r]\<rparr>"
  let ?doc = "\<lparr>Registrations = [\<lparr>Certs = [''c1'', ''c2''], RawKey = [1, 1]\<rparr>]\<rparr>"
  have h1: "regs ?s = [?r]" by simp
  have h2: "x509_ParsePKCS1PrivateKey demo_library (x509_MarshalPKCS1PrivateKey demo_library (key ?r))
      = Inr (key ?r)" by (simp add: demo_library_def numeral_2_eq_2)
  have h3: "jose_NewSigner demo_library (key ?r) = Inr 102" by (simp add: demo_library_def)
  have m: "x509_MarshalPKCS1PrivateKey demo_library (key ?r) = [1, 1]"
    by (simp add: demo_library_def numeral_2_eq_2)
  have h4: "json_Marshal demo_library
      \<lparr>Registrations = [\<lparr>Certs = certs ?r, RawKey = x509_MarshalPKCS1PrivateKey demo_library (key ?r)\<rparr>]\<rparr>
      = Inr ?doc" unfolding m by (simp add: demo_library_def)
  have h5: "json_Unmarshal demo_library ?doc =
      Inr \<lparr>Registrations = [\<lparr>Certs = certs ?r, RawKey = x509_MarshalPKCS1PrivateKey demo_library (key ?r)\<rparr>]\<rparr>"
    unfolding m by (simp add: demo_library_def)
  have h6: "''out.json'' \<notin> unwritable demo_filesystem" by (simp add: demo_filesystem_def)
  have h7: "regs (demo_state [] 0 0 0) = []" by (simp add: demo_state_def New_def)
  obtain fs' where fs': "Snapshot demo_library ''out.json'' ?s demo_filesystem = Inr fs'"
    and rs: "Restore demo_library ''out.json'' fs' (demo_state [] 0 0 0) =
       Inr ((demo_state [] 0 0 0)\<lparr>regs := [\<lparr>key = key ?r, signer = 102, auths = [], certs = certs ?r\<rparr>]\<rparr>)"
    using Snapshot_Restore_round_trip[OF h1 h2 h3 h4 h5 h6 h7] by blast
  have "Snapshot demo_library ''out.json'' ?s demo_filesystem
      = Inr (demo_filesystem\<lparr>files := (files demo_filesystem)(''out.json'' \<mapsto> ?doc)\<rparr>)"
    by (simp add: Snapshot_def Snapshot_append_def ioutil_WriteFile_def demo_filesystem_def
        demo_library_def numeral_2_eq_2)
  then show ?thesis using fs' rs by simp
qed

subsection \<open>Properties of \<open>sendCall\<close>\<close>

lemma no_eligible_call_iff:
  assumes "getReg k1 s = Return reg"
  shows "sendCall_actionList reg s = [] \<longleftrightarrow> maxRegs s < 0 \<and> regs s = []"
  using assms
  by (auto simp: getReg_def sendCall_actionList_def mrand_Intn_def Let_def
      split: if_splits option.splits)

text \<open>
  Claim C5 (the code does not do what the claim says). When no call is eligible, the list
  \<open>sendCall\<close> builds is empty, \<open>weightedCall\<close> returns the nil func value and \<open>sendCall\<close> calls
  it: the call panics instead of ending as a tick without a call, and \<open>s.wg.Done()\<close> is not
  reached. By \<open>no_eligible_call_iff\<close> this is the case of a negative cap and no registration.
\<close>

theorem sendCall_no_eligible_call_panics:
  assumes "getReg k1 s = Return reg"
    and "sendCall_actionList reg s = []"
  shows "sendCall body k1 k2 s = Panic NilDereference"
  using assms by (simp add: sendCall_def weightedCall_def)

theorem sendCall_no_eligible_call_panics_witness:
  "getReg 0 (demo_state [] (- 1) 0 0) = Return None
 \<and> sendCall_actionList None (demo_state [] (- 1) 0 0) = []
 \<and> sendCall demo_bodies 0 0 (demo_state [] (- 1) 0 0) = Panic NilDereference"
proof -
  have g: "getReg 0 (demo_state [] (- 1) 0 0) = Return None"
    by (simp add: getReg_def demo_state_def New_def)
  have a: "sendCall_actionList None (demo_state [] (- 1) 0 0) = []"
    by (simp add: sendCall_actionList_def demo_state_def New_def)
  show ?thesis
    using sendCall_no_eligible_call_panics[OF g a, of demo_bodies 0] g a by simp
qed

subsection \<open>Properties of the warmup\<close>

lemma creating_le_length: "creating ws \<le> int (length ws)"
  unfolding creating_def by (induction ws) auto

lemma creating_nonneg: "0 \<le> creating ws"
  unfolding creating_def by (induction ws) auto

lemma creating_update:
  "i < length ws \<Longrightarrow>
   creating (ws[i := w]) =
     creating ws - (if ws ! i = AtCreate then 1 else 0) + (if w = AtCreate then 1 else 0)"
  unfolding creating_def
proof (induction ws arbitrary: i)
  case Nil
  then show ?case by simp
next
  case (Cons a ws)
  then show ?case by (cases i) auto
qed

lemma creating_all_Finished: "list_all (\<lambda>w. w = Finished) ws \<Longrightarrow> creating ws = 0"
  unfolding creating_def by (induction ws) auto

lemma warmup_step_inv:
  assumes c: "creates_at_most_one body"
    and inv: "warmup_inv W M len0 n sw"
  shows "warmup_inv W M len0 n (warmup_step body i sw)"
proof -
  obtain s ws where sw: "sw = (s, ws)" by (cases sw)
  have I: "warmupRegs s = W" "length ws = n" "len0 \<le> int (length (regs s))"
    "int (length (regs s)) + creating ws \<le> max len0 (W + int n - 1)"
    "Finished \<in> set ws \<longrightarrow> W \<le> int (length (regs s))"
    and M: "maxRegs s = M"
    using inv sw by (auto simp: warmup_inv_def)
  show ?thesis
  proof (cases "i < length ws")
    case False
    then show ?thesis using inv sw by (simp add: warmup_step_def)
  next
    case True
    show ?thesis
    proof (cases "ws ! i")
      case AtCheck
      show ?thesis
      proof (cases "int (length (regs s)) \<ge> warmupRegs s")
        case ge: True
        have "warmup_step body i sw = (s, ws[i := Finished])"
          using sw True AtCheck ge by (simp add: warmup_step_def)
        moreover have "creating (ws[i := Finished]) = creating ws"
          using creating_update[OF True, of Finished] AtCheck by simp
        ultimately show ?thesis using I M ge by (simp add: warmup_inv_def)
      next
        case lt: False
        have st: "warmup_step body i sw = (s, ws[i := AtCreate])"
          using sw True AtCheck lt by (simp add: warmup_step_def)
        have "creating (ws[i := AtCreate]) \<le> int n"
          using creating_le_length[of "ws[i := AtCreate]"] I(2) by simp
        moreover have "int (length (regs s)) \<le> W - 1" using lt I(1) by simp
        ultimately have b: "int (length (regs s)) + creating (ws[i := AtCreate]) \<le> max len0 (W + int n - 1)"
          by linarith
        have "Finished \<in> set (ws[i := AtCreate]) \<Longrightarrow> Finished \<in> set ws"
          by (metis insertE set_update_subset_insert subsetD worker.distinct(5))
        then show ?thesis using st I M b by (auto simp: warmup_inv_def)
      qed
    next
      case AtCreate
      let ?s' = "body NewRegistration None s"
      have st: "warmup_step body i sw = (?s', ws[i := AtCheck])"
        using sw True AtCreate by (simp add: warmup_step_def)
      have cr: "creating (ws[i := AtCheck]) = creating ws - 1"
        using creating_update[OF True, of AtCheck] AtCreate by simp
      have c': "regs ?s' = regs s \<or> (\<exists>r. regs ?s' = regs s @ [r])"
        and w: "warmupRegs ?s' = W" and m: "maxRegs ?s' = M"
        using c I(1) M unfolding creates_at_most_one_def by auto
      have len: "int (length (regs s)) \<le> int (length (regs ?s'))"
        "int (length (regs ?s')) \<le> int (length (regs s)) + 1"
        using c' by auto
      have "Finished \<in> set (ws[i := AtCheck]) \<Longrightarrow> Finished \<in> set ws"
        by (metis insertE set_update_subset_insert subsetD worker.distinct(3))
      then show ?thesis using st I cr len w m by (auto simp: warmup_inv_def)
    next
      case Finished
      then show ?thesis using inv sw True by (simp add: warmup_step_def)
    qed
  qed
qed

lemma warmup_fold_inv:
  assumes "creates_at_most_one body"
  shows "warmup_inv W M len0 n sw \<Longrightarrow> warmup_inv W M len0 n (fold (warmup_step body) schedule sw)"
proof (induction schedule arbitrary: sw)
  case Nil
  then show ?case by simp
next
  case (Cons i schedule)
  show ?case using Cons.IH[OF warmup_step_inv[OF assms Cons.prems]] by simp
qed

lemma warmup_initial_inv:
  "0 < n \<Longrightarrow>
   warmup_inv (warmupRegs s) (maxRegs s) (int (length (regs s))) n (s, replicate n AtCheck)"
  by (auto simp: warmup_inv_def creating_def sum_list_replicate)

lemma outer_loop_listed:
  "Mapping.lookup (fst (fold weightedCall_step pps (c, n))) k = Some b \<Longrightarrow>
   b \<in> action ` set pps \<or> Mapping.lookup c k = Some b"
proof (induction pps arbitrary: c n)
  case Nil
  then show ?case by simp
next
  case (Cons pp ps)
  let ?c1 = "fold (\<lambda>i c. Mapping.update (i + n) (action pp) c) [0..prob pp - 1] c"
  have "fold weightedCall_step (pp # ps) (c, n) = fold weightedCall_step ps (?c1, n + prob pp)"
    by (simp add: weightedCall_step_def)
  then have "b \<in> action ` set ps \<or> Mapping.lookup ?c1 k = Some b"
    using Cons.IH[of ?c1 "n + prob pp"] Cons.prems by simp
  moreover have "Mapping.lookup ?c1 k = Some b \<Longrightarrow> b = action pp \<or> Mapping.lookup c k = Some b"
    by (simp add: inner_loop_lookup split: if_splits)
  ultimately show ?case by auto
qed

lemma weightedCall_returns_listed:
  "weightedCall pps k = Return (Some a) \<Longrightarrow> a \<in> action ` set pps"
proof -
  assume w: "weightedCall pps k = Return (Some a)"
  obtain c n where cn: "fold weightedCall_step pps (Mapping.empty, 0) = (c, n)"
    by (cases "fold weightedCall_step pps (Mapping.empty, 0)")
  from w cn have "\<exists>i. Mapping.lookup c i = Some a"
    by (auto simp: weightedCall_def mrand_Intn_def split: if_splits)
  then obtain i where "Mapping.lookup (fst (fold weightedCall_step pps (Mapping.empty, 0))) i = Some a"
    using cn by auto
  then show ?thesis using outer_loop_listed[of pps Mapping.empty 0 i a] by simp
qed

text \<open>
  Claim C2, as amended. For a cap \<open>N > 0\<close>, a warmup target \<open>W \<ge> N\<close> and at least one worker,
  when the body of \<open>newRegistration\<close> creates at most one registration per call: once the
  warmup is over the population is at least \<open>W\<close>, hence at least \<open>N\<close> (the warmup never reads
  the cap), and at most the larger of the population at its start and \<open>W + workers - 1\<close>;
  the cap is unchanged. And whenever the population is at or above a cap \<open>N > 0\<close>, a
  \<open>sendCall\<close> that returns has run a call other than \<open>newRegistration\<close>.
\<close>

theorem warmup_population_and_cap:
  assumes "creates_at_most_one body"
    and "0 < maxRegs s"
    and "maxRegs s \<le> warmupRegs s"
    and "0 < warmupWorkers s"
    and "warmup body schedule s = Some s'"
  shows "warmupRegs s \<le> int (length (regs s'))
       \<and> maxRegs s \<le> int (length (regs s'))
       \<and> int (length (regs s')) \<le> max (int (length (regs s))) (warmupRegs s + warmupWorkers s - 1)
       \<and> maxRegs s' = maxRegs s
       \<and> (\<forall>k1 k2 (t :: ('key, 'signer) State) t'.
            0 < maxRegs t \<and> maxRegs t \<le> int (length (regs t)) \<and> sendCall body k1 k2 t = Return t'
            \<longrightarrow> (\<exists>c reg. c \<noteq> NewRegistration \<and> wg_Done (body c reg t) = Return t'))"
proof -
  let ?n = "nat (warmupWorkers s)"
  obtain ws where f: "fold (warmup_step body) schedule (s, replicate ?n AtCheck) = (s', ws)"
    and fin: "list_all (\<lambda>w. w = Finished) ws"
    using assms(5) by (auto simp: warmup_def split: prod.splits if_splits)
  have n: "0 < ?n" using assms(4) by simp
  have "warmup_inv (warmupRegs s) (maxRegs s) (int (length (regs s))) ?n (s', ws)"
    using warmup_fold_inv[OF assms(1) warmup_initial_inv[OF n, of s], where schedule = schedule] f
    by simp
  then have I: "length ws = ?n" "maxRegs s' = maxRegs s"
    "int (length (regs s')) + creating ws \<le> max (int (length (regs s))) (warmupRegs s + int ?n - 1)"
    "Finished \<in> set ws \<longrightarrow> warmupRegs s \<le> int (length (regs s'))"
    by (auto simp: warmup_inv_def)
  have "ws \<noteq> []" using I(1) n by auto
  then have "Finished \<in> set ws" using fin by (cases ws) auto
  then have lower: "warmupRegs s \<le> int (length (regs s'))" using I(4) by simp
  have upper: "int (length (regs s')) \<le> max (int (length (regs s))) (warmupRegs s + warmupWorkers s - 1)"
    using I(3) creating_all_Finished[OF fin] assms(4) by simp
  have dispatch: "\<exists>c reg. c \<noteq> NewRegistration \<and> wg_Done (body c reg t) = Return t'"
    if a: "0 < maxRegs t \<and> maxRegs t \<le> int (length (regs t)) \<and> sendCall body k1 k2 t = Return t'"
    for k1 k2 and t t' :: "('key, 'signer) State"
  proof -
    from a obtain reg c where g: "getReg k1 t = Return reg"
      and w: "weightedCall (sendCall_actionList reg t) k2 = Return (Some c)"
      and d: "wg_Done (body c reg t) = Return t'"
      by (auto simp: sendCall_def split: go.splits option.splits)
    have "c \<in> action ` set (sendCall_actionList reg t)"
      using weightedCall_returns_listed[OF w] .
    then have "c \<noteq> NewRegistration"
      using a by (auto simp: sendCall_actionList_def split: option.splits if_splits)
    then show ?thesis using d by blast
  qed
  show ?thesis using lower upper assms(3) I(2) dispatch by auto
qed

lemma demo_bodies_creates_at_most_one: "creates_at_most_one demo_bodies"
  by (simp add: creates_at_most_one_def demo_bodies_def addReg_def)

lemma demo_warmup:
  "warmup demo_bodies [0, 0, 0, 0, 0] (demo_state [] 1 2 1) =
     Some ((demo_state [] 1 2 1)
             \<lparr>regs := [\<lparr>key = 2, signer = 102, auths = [], certs = []\<rparr>,
                       \<lparr>key = 2, signer = 102, auths = [], certs = []\<rparr>]\<rparr>)"
  by (simp add: warmup_def warmup_step_def demo_bodies_def addReg_def demo_state_def New_def)

lemma weightedCall_only_newAuthorization:
  "weightedCall [\<lparr>prob = 3, action = NewAuthorization\<rparr>] 0 = Return (Some NewAuthorization)"
  by code_simp

theorem warmup_population_and_cap_witness:
  "warmup demo_bodies [0, 0, 0, 0, 0] (demo_state [] 1 2 1) =
     Some ((demo_state [] 1 2 1)
             \<lparr>regs := [\<lparr>key = 2, signer = 102, auths = [], certs = []\<rparr>,
                       \<lparr>key = 2, signer = 102, auths = [], certs = []\<rparr>]\<rparr>)
 \<and> warmupRegs (demo_state [] 1 2 1) \<le> 2
 \<and> maxRegs (demo_state [] 1 2 1) \<le> 2
 \<and> 2 \<le> max 0 (warmupRegs (demo_state [] 1 2 1) + warmupWorkers (demo_state [] 1 2 1) - 1)
 \<and> (\<exists>c reg. c \<noteq> NewRegistration \<and> wg_Done (demo_bodies c reg
        ((demo_state [] 1 2 1)
             \<lparr>regs := [\<lparr>key = 2, signer = 102, auths = [], certs = []\<rparr>,
                       \<lparr>key = 2, signer = 102, auths = [], certs = []\<rparr>],
              wg := 1\<rparr>))
      = Return ((demo_state [] 1 2 1)
             \<lparr>regs := [\<lparr>key = 2, signer = 102, auths = [], certs = []\<rparr>,
                       \<lparr>key = 2, signer = 102, auths = [], certs = []\<rparr>],
              wg := 0\<rparr>))"
proof -
  let ?t = "(demo_state [] 1 2 1)
             \<lparr>regs := [\<lparr>key = 2, signer = 102, auths = [], certs = []\<rparr>,
                       \<lparr>key = 2, signer = 102, auths = [], certs = []\<rparr>],
              wg := 1\<rparr>"
  have h2: "0 < maxRegs (demo_state [] 1 2 1)" by (simp add: demo_state_def New_def)
  have h3: "maxRegs (demo_state [] 1 2 1) \<le> warmupRegs (demo_state [] 1 2 1)"
    by (simp add: demo_state_def New_def)
  have h4: "0 < warmupWorkers (demo_state [] 1 2 1)" by (simp add: demo_state_def New_def)
  have m: "0 < maxRegs ?t \<and> maxRegs ?t \<le> int (length (regs ?t))
      \<and> sendCall demo_bodies 0 0 ?t = Return (?t\<lparr>wg := 0\<rparr>)"
    by (simp add: sendCall_def getReg_def mrand_Intn_def sendCall_actionList_def
        weightedCall_only_newAuthorization wg_Done_def demo_bodies_def demo_state_def New_def)
  have r: "regs (demo_state [] 1 2 1) = []" by (simp add: demo_state_def New_def)
  note th = warmup_population_and_cap[OF demo_bodies_creates_at_most_one h2 h3 h4 demo_warmup]
  have b: "warmupRegs (demo_state [] 1 2 1) \<le> 2" "maxRegs (demo_state [] 1 2 1) \<le> 2"
    "2 \<le> max 0 (warmupRegs (demo_state [] 1 2 1) + warmupWorkers (demo_state [] 1 2 1) - 1)"
    using th r by simp_all
  have "0 < maxRegs ?t \<and> maxRegs ?t \<le> int (length (regs ?t))
      \<and> sendCall demo_bodies 0 0 ?t = Return (?t\<lparr>wg := 0\<rparr>)
      \<longrightarrow> (\<exists>c reg. c \<noteq> NewRegistration \<and> wg_Done (demo_bodies c reg ?t) = Return (?t\<lparr>wg := 0\<rparr>))"
    using th by blast
  then have "\<exists>c reg. c \<noteq> NewRegistration \<and> wg_Done (demo_bodies c reg ?t) = Return (?t\<lparr>wg := 0\<rparr>)"
    using m by blast
  then show ?thesis using b demo_warmup by simp
qed

text \<open>
  The claim C2 as stated fails: with cap 1, warmup target 2 and one worker, the warmup ends
  with two registrations, above the cap.
\<close>

theorem warmup_exceeds_cap:
  "maxRegs (demo_state [] 1 2 1) = 1
 \<and> maxRegs (demo_state [] 1 2 1) \<le> warmupRegs (demo_state [] 1 2 1)
 \<and> map_option (\<lambda>s'. int (length (regs s'))) (warmup demo_bodies [0, 0, 0, 0, 0] (demo_state [] 1 2 1))
     = Some 2
 \<and> maxRegs (demo_state [] 1 2 1) < 2"
  by (simp add: warmup_def warmup_step_def demo_bodies_def addReg_def demo_state_def New_def)

text \<open>
  The upper bound is reached: with cap 1, target 1 and two workers that both pass the test
  before either registers, the warmup ends with two registrations.
\<close>

lemma warmup_race_exceeds_target:
  "map_option (\<lambda>s'. int (length (regs s'))) (warmup demo_bodies [0, 1, 0, 1, 0, 1] (demo_state [] 1 1 2))
     = Some 2"
  by (simp add: warmup_def warmup_step_def demo_bodies_def addReg_def demo_state_def New_def
      numeral_2_eq_2)

subsection \<open>Properties of \<open>Run\<close>\<close>

lemma wg_Done_challSrvProc:
  "wg_Done s = Return s' \<Longrightarrow> challSrvProc s' = challSrvProc s"
  by (auto simp: wg_Done_def split: if_splits)

lemma sendCall_challSrvProc:
  assumes "\<forall>c reg s. challSrvProc (body c reg s) = challSrvProc s"
    and "sendCall body k1 k2 s = Return s'"
  shows "challSrvProc s' = challSrvProc s"
  using assms
  by (auto simp: sendCall_def dest!: wg_Done_challSrvProc split: go.splits option.splits)

lemma sending_loop_challSrvProc:
  "\<forall>c reg s. challSrvProc (bodies env c reg s) = challSrvProc s \<Longrightarrow>
   sending_loop env ts plan st = Return st' \<Longrightarrow>
   challSrvProc (fst st') = challSrvProc (fst st)"
proof (induction env ts plan st rule: sending_loop.induct)
  case (1 env plan st)
  then show ?case by simp
next
  case (2 env ts plan st)
  then show ?case
    by (cases plan; cases st) (auto simp: executePlan_segment_def)
next
  case (3 env k1 k2 ts plan st)
  obtain s tr where st: "st = (s, tr)" by (cases st)
  from "3.prems"(2) st obtain s1 where
    s1: "sendCall (bodies env) k1 k2 (s\<lparr>wg := wg s + 1\<rparr>) = Return s1"
    and nz: "throughput s1 \<noteq> 0"
    and rest: "sending_loop env ts plan
        (s1, tr @ [Spawned, Slept (1000000000 sdiv throughput s1)]) = Return st'"
    by (auto split: go.splits if_splits)
  have "challSrvProc (fst st') = challSrvProc s1"
    using "3.IH"[OF st[symmetric] s1 nz "3.prems"(1) rest] by simp
  moreover have "challSrvProc s1 = challSrvProc s"
    using sendCall_challSrvProc[OF "3.prems"(1) s1] by simp
  ultimately show ?case using st by simp
qed

lemma warmup_fold_challSrvProc:
  assumes "\<forall>c reg s. challSrvProc (body c reg s) = challSrvProc s"
  shows "challSrvProc (fst (fold (warmup_step body) schedule sw)) = challSrvProc (fst sw)"
proof (induction schedule arbitrary: sw)
  case Nil
  then show ?case by simp
next
  case (Cons i schedule)
  have "challSrvProc (fst (warmup_step body i sw)) = challSrvProc (fst sw)"
    using assms by (cases sw) (auto simp: warmup_step_def split: worker.splits)
  then show ?case using Cons.IH[of "warmup_step body i sw"] by simp
qed

lemma Run_warmup_challSrvProc:
  assumes "\<forall>c reg s. challSrvProc (body c reg s) = challSrvProc s"
    and "Run_warmup body schedule s = Some s'"
  shows "challSrvProc s' = challSrvProc s"
proof (cases "warmupRegs s > int (length (regs s))")
  case True
  then have "warmup body schedule s = Some s'" using assms(2) by (simp add: Run_warmup_def)
  then have "s' = fst (fold (warmup_step body) schedule (s, replicate (nat (warmupWorkers s)) AtCheck))"
    by (auto simp: warmup_def split: prod.splits if_splits)
  then show ?thesis using warmup_fold_challSrvProc[OF assms(1)] by simp
next
  case False
  then show ?thesis using assms(2) by (simp add: Run_warmup_def)
qed

text \<open>
  Claim C6 (the code does not do what the claim says). When the challenge server is skipped,
  \<open>challSrvProc\<close> is still the nil pointer that \<open>New\<close> left (no body of a call sets it) when
  \<open>Run\<close> reaches \<open>s.challSrvProc.Kill()\<close>: whatever the schedules, \<open>Run\<close> does not return.
  Either the warmup or the wait for the spawned calls does not end, or \<open>Run\<close> panics, at the
  latest at \<open>Kill\<close>, before the stop timestamp is set.
\<close>

theorem Run_without_challenge_server_panics:
  assumes "challSrvProc s = None"
    and "\<forall>c reg s'. challSrvProc (bodies env c reg s') = challSrvProc s'"
  shows "Run env started stopped schedule ticks binName True httpOneAddr s = None
       \<or> (\<exists>p. Run env started stopped schedule ticks binName True httpOneAddr s = Some (Panic p))"
proof -
  let ?s1 = "s\<lparr>callLatency := (callLatency s)\<lparr>Started := started\<rparr>\<rparr>"
  show ?thesis
  proof (cases "Run_warmup (bodies env) schedule ?s1")
    case None
    then show ?thesis by (simp add: Run_def)
  next
    case (Some s2)
    have p2: "challSrvProc s2 = None"
      using Run_warmup_challSrvProc[OF assms(2) Some] assms(1) by simp
    show ?thesis
    proof (cases "sending_loop env ticks (runPlan s2)
        (s2, if length (runPlan s2) > 0 then [PlanLaunched] else [])")
      case (Panic p)
      then show ?thesis using Some by (simp add: Run_def Run_start_def)
    next
      case (Return st5)
      obtain s5 tr5 where st5: "st5 = (s5, tr5)" by (cases st5)
      have "challSrvProc s5 = None"
        using sending_loop_challSrvProc[OF assms(2) Return] p2 st5 by simp
      then show ?thesis using Some Return st5 by (simp add: Run_def Run_start_def Let_def)
    qed
  qed
qed

lemma weightedCall_only_newRegistration:
  "weightedCall [\<lparr>prob = 1, action = NewRegistration\<rparr>] 0 = Return (Some NewRegistration)"
  by code_simp

theorem Run_without_challenge_server_panics_witness:
  "Run demo_environment 10 20 [] [SendCall 0 0] ''boulder'' True '':5002'' (demo_state [] 0 0 0)
     = Some (Panic NilDereference)"
proof -
  have h1: "challSrvProc (demo_state [] 0 0 0) = None"
    by (simp add: demo_state_def New_def)
  have h2: "\<forall>c reg s'. challSrvProc (bodies demo_environment c reg s') = challSrvProc s'"
    by (simp add: demo_environment_def demo_bodies_def addReg_def split: call.splits)
  have e: "Run demo_environment 10 20 [] [SendCall 0 0] ''boulder'' True '':5002''
      (demo_state [] 0 0 0) = Some (Panic NilDereference)"
    by (simp add: Run_def Run_warmup_def Run_start_def sendCall_def getReg_def
        sendCall_actionList_def weightedCall_only_newRegistration wg_Done_def
        demo_environment_def demo_bodies_def addReg_def demo_state_def New_def)
  show ?thesis
    using Run_without_challenge_server_panics[OF h1 h2, of 10 20 "[]" "[SendCall 0 0]"
        "''boulder''" "'':5002''"] e
    by simp
qed

text \<open>
  Claim C9. When the start of the challenge server fails, \<open>Run\<close> returns that error as soon
  as the warmup (if any) is over, with the state the warmup left and no event after it: no
  run plan launched, no pass of the sending loop, no call spawned. The schedule of the
  sending loop plays no role.
\<close>

theorem Run_start_failure_aborts:
  assumes "\<forall>argv. cmd_Start env argv = Inl err"
  shows "Run env started stopped schedule ticks binName False httpOneAddr s =
           map_option (\<lambda>s'. Return (Some err, s', []))
             (Run_warmup (bodies env) schedule (s\<lparr>callLatency := (callLatency s)\<lparr>Started := started\<rparr>\<rparr>))"
  using assms by (simp add: Run_def Run_start_def Let_def split: option.splits)

theorem Run_start_failure_aborts_witness:
  "Run failing_environment 10 20 [0, 0, 0, 0, 0] [SendCall 0 0] ''boulder'' False '':5002''
      (demo_state [\<lparr>For = 5, Rate = 3\<rparr>] 1 2 1)
     = Some (Return (Some (Error ''exec: executable file not found''),
          (demo_state [\<lparr>For = 5, Rate = 3\<rparr>] 1 2 1)
            \<lparr>regs := [\<lparr>key = 2, signer = 102, auths = [], certs = []\<rparr>,
                      \<lparr>key = 2, signer = 102, auths = [], certs = []\<rparr>],
             callLatency := \<lparr>Started = 10, Stopped = 0, points = []\<rparr>\<rparr>,
          []))"
proof -
  have h: "\<forall>argv. cmd_Start failing_environment argv = Inl (Error ''exec: executable file not found'')"
    by (simp add: failing_environment_def)
  have w: "Run_warmup (bodies failing_environment) [0, 0, 0, 0, 0]
      ((demo_state [\<lparr>For = 5, Rate = 3\<rparr>] 1 2 1)
         \<lparr>callLatency := (callLatency (demo_state [\<lparr>For = 5, Rate = 3\<rparr>] 1 2 1))\<lparr>Started := 10\<rparr>\<rparr>)
     = Some ((demo_state [\<lparr>For = 5, Rate = 3\<rparr>] 1 2 1)
            \<lparr>regs := [\<lparr>key = 2, signer = 102, auths = [], certs = []\<rparr>,
                      \<lparr>key = 2, signer = 102, auths = [], certs = []\<rparr>],
             callLatency := \<lparr>Started = 10, Stopped = 0, points = []\<rparr>\<rparr>)"
    by (simp add: Run_warmup_def warmup_def warmup_step_def failing_environment_def
        demo_bodies_def addReg_def demo_state_def New_def)
  show ?thesis
    using Run_start_failure_aborts[OF h, of 10 20 "[0, 0, 0, 0, 0]" "[SendCall 0 0]" "''boulder''" "'':5002''"
        "demo_state [\<lparr>For = 5, Rate = 3\<rparr>] 1 2 1"]
    by (simp add: w)
qed

text \<open>
  The other path of \<open>Run\<close>, for comparison: when the challenge server was started and the
  sending loop ends with the process still in place and the wait group at zero, \<open>Run\<close> goes
  through its whole shutdown and returns nil; an error of \<open>Kill\<close> only adds a printed line.
\<close>

lemma Run_with_challenge_server_shuts_down:
  assumes "Run_warmup (bodies env) schedule (s\<lparr>callLatency := (callLatency s)\<lparr>Started := started\<rparr>\<rparr>)
             = Some s2"
    and "cmd_Start env [binName, ''chall-srv'', ''--rpcAddr='' @ challRPCAddr s2,
                        ''--httpOneAddr='' @ httpOneAddr] = Inr p"
    and "sending_loop env ticks (runPlan s2)
           (s2\<lparr>challSrvProc := Some p\<rparr>,
            [CmdStarted [binName, ''chall-srv'', ''--rpcAddr='' @ challRPCAddr s2,
                         ''--httpOneAddr='' @ httpOneAddr]]
            @ (if length (runPlan s2) > 0 then [PlanLaunched] else []))
           = Return (s5, tr5)"
    and "wg s5 = 0"
    and "challSrvProc s5 = Some p"
  shows "Run env started stopped schedule ticks binName False httpOneAddr s =
           Some (Return (None,
                         s5\<lparr>callLatency := (callLatency s5)\<lparr>Stopped := stopped\<rparr>\<rparr>,
                         tr5 @ [Slept (runtime s5), Printed ''SLEEP END'', StopSent,
                                Printed ''SENT STOP'', Waited, Printed ''KILLING CHALL SERVER'',
                                Killed p]
                         @ (case process_Kill env p of
                              Some err \<Rightarrow> [Printed ''Error killing challenge server: %s'']
                            | None \<Rightarrow> [])
                         @ [Printed ''ALL DONE'']))"
  using assms by (simp add: Run_def Run_start_def Let_def)

end
